theory Spec2Isabelle
  imports Main
begin

section \<open>Characters and strings\<close>

text \<open>
  A Python string is modelled as a \<open>string\<close>; one \<open>char\<close> stands for one code point
  below 256. \<open>is_space\<close> is the class \<open>\s\<close> of the \<open>re\<close> module on such code points (the
  same set \<open>str.strip\<close> removes): tab, line feed, vertical tab, form feed, carriage
  return, the four separators 0x1C..0x1F, space, 0x85 and 0xA0.
\<close>

abbreviation dquote :: char where "dquote \<equiv> CHR 0x22"
abbreviation squote :: char where "squote \<equiv> CHR 0x27"
abbreviation backslash :: char where "backslash \<equiv> CHR 0x5C"
abbreviation newline :: char where "newline \<equiv> CHR 0x0A"

definition is_space :: "char \<Rightarrow> bool" where
  "is_space c = (c \<in> set [CHR 0x09, CHR 0x0A, CHR 0x0B, CHR 0x0C, CHR 0x0D,
                           CHR 0x1C, CHR 0x1D, CHR 0x1E, CHR 0x1F, CHR 0x20,
                           CHR 0x85, CHR 0xA0])"

section \<open>The lexer: \<open>tokenize\<close>\<close>

text \<open>
  \<open>token_re\<close> is \<open>\s*(?:(>>)|([^\s"']+)|"((?:\\.|[^"])+)"|'((?:\\.|[^'])+)')\<close>.
  A successful match sets exactly one of its four groups.
\<close>

datatype tmatch = Group1 string | Group2 string | Group3 string | Group4 string

text \<open>
  The class \<open>[^\s"']\<close> of the second alternative.
\<close>

definition is_bare :: "char \<Rightarrow> bool" where
  "is_bare c = (\<not> is_space c \<and> c \<noteq> dquote \<and> c \<noteq> squote)"

text \<open>
  The body \<open>(?:\\.|[^q])+\<close> of a quoted span followed by the closing quote \<open>q\<close>, as the
  backtracking matcher runs it: at each position it first tries one more iteration
  through \<open>\\.\<close> (a backslash and any character but a line feed), then one more through
  \<open>[^q]\<close>, and only then, if one iteration at least is done (\<open>started\<close>), leaves the loop
  and matches the closing quote. The result is the text of the group and the input left
  after the closing quote.
\<close>

fun quoted_body :: "char \<Rightarrow> string \<Rightarrow> bool \<Rightarrow> (string \<times> string) option" where
  "quoted_body q [] started = None"
| "quoted_body q (c # cs) started =
     (case (if c = backslash
            then (case cs of
                    [] \<Rightarrow> None
                  | d # ds \<Rightarrow> if d \<noteq> newline
                              then map_option (\<lambda>(b, r). (c # d # b, r)) (quoted_body q ds True)
                              else None)
            else None) of
        Some m \<Rightarrow> Some m
      | None \<Rightarrow>
          (case (if c \<noteq> q
                 then map_option (\<lambda>(b, r). (c # b, r)) (quoted_body q cs True)
                 else None) of
             Some m \<Rightarrow> Some m
           | None \<Rightarrow> if started \<and> c = q then Some ([], cs) else None))"

text \<open>
  The four alternatives, tried in order at a position. The first two end the pattern,
  so the greedy run of the second is final.
\<close>

definition match_alts :: "string \<Rightarrow> (tmatch \<times> string) option" where
  "match_alts cs =
     (case cs of
        [] \<Rightarrow> None
      | c # rest \<Rightarrow>
          if c = CHR ''>'' \<and> rest \<noteq> [] \<and> hd rest = CHR ''>''
          then Some (Group1 ''>>'', tl rest)
          else if is_bare c
          then Some (Group2 (takeWhile is_bare cs), dropWhile is_bare cs)
          else if c = dquote
          then map_option (\<lambda>(b, r). (Group3 b, r)) (quoted_body dquote rest False)
          else if c = squote
          then map_option (\<lambda>(b, r). (Group4 b, r)) (quoted_body squote rest False)
          else None)"

text \<open>
  \<open>token_re.match(s, pos)\<close> on the input from \<open>pos\<close> on: the greedy \<open>\s*\<close> takes one
  more whitespace character first and gives it back when the rest of the pattern
  fails after it.
\<close>

fun match_token :: "string \<Rightarrow> (tmatch \<times> string) option" where
  "match_token [] = match_alts []"
| "match_token (c # cs) =
     (if is_space c
      then (case match_token cs of
              Some m \<Rightarrow> Some m
            | None \<Rightarrow> match_alts (c # cs))
      else match_alts (c # cs))"

text \<open>
  \<open>str.replace\<close> of the two characters backslash, \<open>q\<close> by \<open>q\<close>: leftmost occurrences that
  do not overlap.
\<close>

fun replace_escaped :: "char \<Rightarrow> string \<Rightarrow> string" where
  "replace_escaped q (a # b # cs) =
     (if a = backslash \<and> b = q then q # replace_escaped q cs
      else a # replace_escaped q (b # cs))"
| "replace_escaped q cs = cs"

fun token_of :: "tmatch \<Rightarrow> string" where
  "token_of (Group1 t) = t"
| "token_of (Group2 t) = t"
| "token_of (Group3 t) = replace_escaped dquote t"
| "token_of (Group4 t) = replace_escaped squote t"

lemma quoted_body_cases:
  assumes "quoted_body q (c # rest) started = Some (b, r)"
  shows "(\<exists>d ds b'. rest = d # ds \<and> quoted_body q ds True = Some (b', r))
       \<or> (\<exists>b'. quoted_body q rest True = Some (b', r))
       \<or> r = rest"
  using assms by (fastforce split: if_splits option.splits list.splits)

lemma quoted_body_shorter:
  "quoted_body q cs started = Some (b, r) \<Longrightarrow> length r < length cs"
proof (induction cs arbitrary: started b r rule: length_induct)
  case (1 cs)
  then have IH: "\<And>ys s b' r'. length ys < length cs \<Longrightarrow> quoted_body q ys s = Some (b', r')
                  \<Longrightarrow> length r' < length ys"
    by blast
  show ?case
  proof (cases cs)
    case Nil
    with "1.prems" show ?thesis by simp
  next
    case (Cons c rest)
    with "1.prems" have "quoted_body q (c # rest) started = Some (b, r)" by simp
    from quoted_body_cases[OF this] consider
        (esc) d ds b' where "rest = d # ds" "quoted_body q ds True = Some (b', r)"
      | (plain) b' where "quoted_body q rest True = Some (b', r)"
      | (close) "r = rest"
      by blast
    then show ?thesis
    proof cases
      case esc
      from IH[OF _ esc(2)] esc(1) Cons show ?thesis by simp
    next
      case plain
      from IH[OF _ plain] Cons show ?thesis by simp
    next
      case close
      with Cons show ?thesis by simp
    qed
  qed
qed

lemma match_alts_cases:
  assumes "match_alts (c # rest) = Some (g, r)"
  shows "(r = tl rest \<and> rest \<noteq> []) \<or> r = dropWhile is_bare rest
         \<or> (\<exists>qc b. quoted_body qc rest False = Some (b, r))"
  using assms by (fastforce simp: match_alts_def split: if_splits)

lemma match_alts_shorter:
  "match_alts cs = Some (g, r) \<Longrightarrow> length r < length cs"
proof (cases cs)
  case Nil
  assume "match_alts cs = Some (g, r)"
  with Nil show ?thesis by (simp add: match_alts_def)
next
  case (Cons c rest)
  assume m: "match_alts cs = Some (g, r)"
  have dw: "length (dropWhile is_bare rest) \<le> length rest"
    by (rule length_dropWhile_le)
  from m Cons have "match_alts (c # rest) = Some (g, r)" by simp
  from match_alts_cases[OF this] consider
      (g1) "r = tl rest" "rest \<noteq> []"
    | (g2) "r = dropWhile is_bare rest"
    | (q) qc b where "quoted_body qc rest False = Some (b, r)"
    by blast
  then show ?thesis
  proof cases
    case g1
    with Cons show ?thesis by (cases rest) simp_all
  next
    case g2
    with Cons dw show ?thesis by simp
  next
    case q
    from quoted_body_shorter[OF q] Cons show ?thesis by simp
  qed
qed

lemma match_token_shorter:
  "match_token cs = Some (g, r) \<Longrightarrow> length r < length cs"
proof (induction cs)
  case Nil
  then show ?case by (simp add: match_alts_def)
next
  case (Cons c cs)
  show ?case
  proof (cases "match_token cs")
    case None
    with Cons.prems have "match_alts (c # cs) = Some (g, r)"
      by (simp split: if_splits)
    then show ?thesis by (rule match_alts_shorter)
  next
    case (Some m)
    show ?thesis
    proof (cases "is_space c")
      case True
      with Some Cons.prems have "match_token cs = Some (g, r)" by simp
      from Cons.IH[OF this] show ?thesis by simp
    next
      case False
      with Cons.prems have "match_alts (c # cs) = Some (g, r)" by simp
      then show ?thesis by (rule match_alts_shorter)
    qed
  qed
qed

text \<open>
  The loop of \<open>tokenize\<close>, on the input from \<open>pos\<close> on: it stops at the end of the
  input and at the first position where \<open>token_re\<close> does not match.
\<close>

function tokenize_from :: "string \<Rightarrow> string list" where
  "tokenize_from cs =
     (if cs = [] then []
      else (case match_token cs of
              None \<Rightarrow> []
            | Some (g, rest) \<Rightarrow> token_of g # tokenize_from rest))"
  by pat_completeness auto
termination
  by (relation "measure length") (auto dest: match_token_shorter)

definition tokenize :: "string \<Rightarrow> string list" where
  "tokenize s = tokenize_from s"


declare tokenize_from.simps [simp del]

section \<open>The parser: \<open>parse_pipeline\<close>\<close>

datatype error = IndexError | OSError

text \<open>
  \<open>xs[i]\<close> for an index that is not negative: out of range it raises.
\<close>

definition index :: "'a list \<Rightarrow> nat \<Rightarrow> error + 'a" where
  "index xs i = (if i < length xs then Inr (xs ! i) else Inl IndexError)"

text \<open>
  The dictionary \<open>{'args': .., 'in': .., 'out': .., 'append': ..}\<close> of one stage.
\<close>

record command =
  cmd_args :: "string list"
  cmd_in :: "string option"
  cmd_out :: "string option"
  cmd_append :: bool

text \<open>
  The variables of the loop over one segment.
\<close>

record seg_vars =
  infile :: "string option"
  outfile :: "string option"
  outfile_append :: bool
  args :: "string list"

definition seg_init :: seg_vars where
  "seg_init = \<lparr>infile = None, outfile = None, outfile_append = False, args = []\<rparr>"

text \<open>
  The first loop of \<open>parse_pipeline\<close>: split the tokens at each \<open>|\<close>; \<open>cur\<close> is the
  segment being filled.
\<close>

fun split_pipe :: "string list \<Rightarrow> string list \<Rightarrow> string list list" where
  "split_pipe [] cur = [cur]"
| "split_pipe (t # ts) cur =
     (if t = ''|'' then cur # split_pipe ts [] else split_pipe ts (cur @ [t]))"

text \<open>
  The \<open>while i < len(seg)\<close> loop. Each branch for an operator advances \<open>i\<close> twice, once
  before the test for a following token and once after it.
\<close>

function scan_loop :: "string list \<Rightarrow> nat \<Rightarrow> seg_vars \<Rightarrow> error + seg_vars" where
  "scan_loop seg i v =
     (if i < length seg then
        (case index seg i of
           Inl e \<Rightarrow> Inl e
         | Inr tok \<Rightarrow>
             if tok = ''>'' then
               (if i + 1 < length seg
                then (case index seg (i + 1) of
                        Inl e \<Rightarrow> Inl e
                      | Inr t \<Rightarrow> scan_loop seg (i + 2) (v\<lparr>outfile := Some t\<rparr>))
                else scan_loop seg (i + 2) (v\<lparr>outfile := None\<rparr>))
             else if tok = ''>>'' then
               (if i + 1 < length seg
                then (case index seg (i + 1) of
                        Inl e \<Rightarrow> Inl e
                      | Inr t \<Rightarrow> scan_loop seg (i + 2)
                                  (v\<lparr>outfile := Some t, outfile_append := True\<rparr>))
                else scan_loop seg (i + 2) (v\<lparr>outfile := None\<rparr>))
             else if tok = ''<'' then
               (if i + 1 < length seg
                then (case index seg (i + 1) of
                        Inl e \<Rightarrow> Inl e
                      | Inr t \<Rightarrow> scan_loop seg (i + 2) (v\<lparr>infile := Some t\<rparr>))
                else scan_loop seg (i + 2) (v\<lparr>infile := None\<rparr>))
             else scan_loop seg (i + 1) (v\<lparr>args := args v @ [tok]\<rparr>))
      else Inr v)"
  by pat_completeness auto
termination
  by (relation "measure (\<lambda>(seg, i, v). length seg - i)") auto

declare scan_loop.simps [simp del]

text \<open>
  The same loop by recursion on the tokens left, used in the proofs;
  \<open>scan_loop_scan_toks\<close> shows that \<open>scan_loop\<close> computes it and never raises.
\<close>

fun scan_toks :: "string list \<Rightarrow> seg_vars \<Rightarrow> seg_vars" where
  "scan_toks [] v = v"
| "scan_toks [tok] v =
     (if tok = ''>'' then v\<lparr>outfile := None\<rparr>
      else if tok = ''>>'' then v\<lparr>outfile := None\<rparr>
      else if tok = ''<'' then v\<lparr>infile := None\<rparr>
      else v\<lparr>args := args v @ [tok]\<rparr>)"
| "scan_toks (tok # t # rest) v =
     (if tok = ''>'' then scan_toks rest (v\<lparr>outfile := Some t\<rparr>)
      else if tok = ''>>'' then scan_toks rest (v\<lparr>outfile := Some t, outfile_append := True\<rparr>)
      else if tok = ''<'' then scan_toks rest (v\<lparr>infile := Some t\<rparr>)
      else scan_toks (t # rest) (v\<lparr>args := args v @ [tok]\<rparr>))"

text \<open>
  The redirection operators, and the variable and the field of the record that an
  operator sets.
\<close>

definition is_redir :: "string \<Rightarrow> bool" where
  "is_redir tok = (tok = ''>'' \<or> tok = ''>>'' \<or> tok = ''<'')"

definition redir_var :: "string \<Rightarrow> seg_vars \<Rightarrow> string option" where
  "redir_var tok v = (if tok = ''<'' then infile v else outfile v)"

definition redir_field :: "string \<Rightarrow> command \<Rightarrow> string option" where
  "redir_field tok c = (if tok = ''<'' then cmd_in c else cmd_out c)"

text \<open>
  The loop over the segments: a segment whose \<open>args\<close> is empty adds no record.
\<close>

fun build_cmds :: "string list list \<Rightarrow> error + command list" where
  "build_cmds [] = Inr []"
| "build_cmds (seg # segs) =
     (case scan_loop seg 0 seg_init of
        Inl e \<Rightarrow> Inl e
      | Inr v \<Rightarrow>
          (case build_cmds segs of
             Inl e \<Rightarrow> Inl e
           | Inr cmds \<Rightarrow>
               Inr (if args v \<noteq> []
                    then \<lparr>cmd_args = args v, cmd_in = infile v, cmd_out = outfile v,
                          cmd_append = outfile_append v\<rparr> # cmds
                    else cmds)))"

definition parse_pipeline :: "string \<Rightarrow> error + command list" where
  "parse_pipeline line =
     (let tokens = tokenize line
      in if tokens = [] then Inr [] else build_cmds (split_pipe tokens []))"

section \<open>The operating system\<close>

text \<open>
  What the shell reads from its environment and what the system calls answer is a
  parameter of the model. \<open>os.pipe\<close> and \<open>os.fork\<close> are answered by the number of the
  call (\<open>None\<close>: the call raises \<open>OSError\<close>), \<open>os.waitpid\<close> by the process id,
  \<open>os.chdir\<close> by the path (\<open>Some\<close> text: the call raises, with that text).
\<close>

datatype wait_result = Exited int | Signaled int | WaitFailed

datatype open_mode = ReadOnly | WriteTrunc | WriteAppend

record system =
  env_PS1 :: "string option"
  env_PATH :: "string option"
  env_HOME :: "string option"
  access_x :: "string \<Rightarrow> bool"
  isfile :: "string \<Rightarrow> bool"
  pipe_result :: "nat \<Rightarrow> (nat \<times> nat) option"
  fork_result :: "nat \<Rightarrow> nat option"
  waitpid_result :: "nat \<Rightarrow> wait_result"
  chdir_error :: "string \<Rightarrow> string option"
  open_result :: "string \<Rightarrow> open_mode \<Rightarrow> nat option"
  execve_ok :: "string \<Rightarrow> bool"

text \<open>
  What a child does between \<open>fork\<close> and the end of the shell's code in it, and what the
  shell itself does, are recorded as events.
\<close>

datatype child_ev =
    COpen string open_mode nat
  | COpenFails string open_mode
  | CDup2 nat nat
  | CClose nat
  | CStderr string
  | CExit int
  | CExecve string "string list"
  | CExecveFails string "string list"
  | CRaise error

datatype event =
    EvPipe nat nat
  | EvFork nat "child_ev list"
  | EvClose nat
  | EvWait nat
  | EvChdir string
  | EvStdout string
  | EvStderr string
  | EvTerminated int

text \<open>
  \<open>EvTerminated n\<close> is the line \<open>Program terminated with exit code n.\<close> on the standard
  error.
\<close>

record world =
  pipes_made :: nat
  forks_made :: nat
  trace :: "event list"

definition emit :: "event list \<Rightarrow> world \<Rightarrow> world" where
  "emit evs w = w\<lparr>trace := trace w @ evs\<rparr>"

section \<open>\<open>get_prompt\<close> and \<open>find_executable\<close>\<close>

definition get_prompt :: "system \<Rightarrow> string" where
  "get_prompt sys = (case env_PS1 sys of None \<Rightarrow> ''$ '' | Some ps1 \<Rightarrow> ps1)"

text \<open>
  \<open>s.split(sep)\<close> for a separator of one character; \<open>cur\<close> is the piece being read.
  The empty string splits into one empty piece.
\<close>

fun split_on :: "char \<Rightarrow> string \<Rightarrow> string \<Rightarrow> string list" where
  "split_on sep [] cur = [cur]"
| "split_on sep (c # cs) cur =
     (if c = sep then cur # split_on sep cs [] else split_on sep cs (cur @ [c]))"

text \<open>
  \<open>os.path.join(a, b)\<close> of \<open>posixpath\<close>.
\<close>

definition path_join :: "string \<Rightarrow> string \<Rightarrow> string" where
  "path_join a b =
     (if b \<noteq> [] \<and> hd b = CHR ''/'' then b
      else if a = [] \<or> last a = CHR ''/'' then a @ b
      else a @ ''/'' @ b)"

text \<open>
  \<open>os.access(p, os.X_OK) and os.path.isfile(p)\<close>.
\<close>

definition is_executable :: "system \<Rightarrow> string \<Rightarrow> bool" where
  "is_executable sys p = (access_x sys p \<and> isfile sys p)"

text \<open>
  The loop over the entries of \<open>PATH\<close>.
\<close>

fun search_path :: "system \<Rightarrow> string list \<Rightarrow> string \<Rightarrow> string option" where
  "search_path sys [] cmd = None"
| "search_path sys (d # ds) cmd =
     (let full = path_join d cmd
      in if is_executable sys full then Some full else search_path sys ds cmd)"

definition find_executable :: "system \<Rightarrow> string \<Rightarrow> string option" where
  "find_executable sys cmd =
     (if CHR ''/'' \<in> set cmd
      then (if is_executable sys cmd then Some cmd else None)
      else (let path = (case env_PATH sys of None \<Rightarrow> [] | Some p \<Rightarrow> p)
            in search_path sys (split_on CHR '':'' path []) cmd))"


section \<open>The executor: \<open>run_pipeline\<close>\<close>

subsection \<open>The child\<close>

text \<open>
  The child's code is a sequence of parts, each of which either goes on (\<open>Inr\<close>) or
  ends the child (\<open>Inl\<close>), with the events it made. \<open>os.dup2\<close> and \<open>os.close\<close> are taken
  to succeed in the child.
\<close>

type_synonym child_part = "child_ev list + child_ev list"

definition and_then :: "child_part \<Rightarrow> child_part \<Rightarrow> child_part" where
  "and_then a b =
     (case a of
        Inl evs \<Rightarrow> Inl evs
      | Inr evs \<Rightarrow> (case b of Inl evs' \<Rightarrow> Inl (evs @ evs') | Inr evs' \<Rightarrow> Inr (evs @ evs')))"

definition not_found :: "string \<Rightarrow> child_ev list" where
  "not_found name = [CStderr (name @ '': command not found'' @ [newline]), CExit 1]"

text \<open>
  \<open>i == n - 1\<close> and \<open>i < n - 1\<close> are written \<open>i + 1 = n\<close> and \<open>i + 1 < n\<close>, which are the
  same on Python's integers and do not depend on subtraction below zero.
\<close>

definition child_stdin :: "system \<Rightarrow> (nat \<times> nat) list \<Rightarrow> nat \<Rightarrow> command \<Rightarrow> child_part" where
  "child_stdin sys pipes i cmd =
     and_then
       (case cmd_in cmd of
          None \<Rightarrow> Inr []
        | Some p \<Rightarrow>
            if i = 0 \<and> p \<noteq> [] then
              (case open_result sys p ReadOnly of
                 None \<Rightarrow> Inl (COpenFails p ReadOnly # not_found p)
               | Some fdin \<Rightarrow> Inr [COpen p ReadOnly fdin, CDup2 fdin 0, CClose fdin])
            else Inr [])
       (if i > 0 then
          (case index pipes (i - 1) of
             Inl e \<Rightarrow> Inl [CRaise e]
           | Inr (r, w) \<Rightarrow> Inr [CDup2 r 0])
        else Inr [])"

definition child_stdout ::
  "system \<Rightarrow> (nat \<times> nat) list \<Rightarrow> nat \<Rightarrow> nat \<Rightarrow> command \<Rightarrow> child_part" where
  "child_stdout sys pipes n i cmd =
     and_then
       (case cmd_out cmd of
          None \<Rightarrow> Inr []
        | Some p \<Rightarrow>
            if i + 1 = n \<and> p \<noteq> [] then
              (let flags = (if cmd_append cmd then WriteAppend else WriteTrunc)
               in case open_result sys p flags of
                    None \<Rightarrow> Inl (COpenFails p flags # not_found p)
                  | Some fdout \<Rightarrow> Inr [COpen p flags fdout, CDup2 fdout 1, CClose fdout])
            else Inr [])
       (if i + 1 < n then
          (case index pipes i of
             Inl e \<Rightarrow> Inl [CRaise e]
           | Inr (r, w) \<Rightarrow> Inr [CDup2 w 1])
        else Inr [])"

definition child_close_pipes :: "(nat \<times> nat) list \<Rightarrow> child_part" where
  "child_close_pipes pipes = Inr (concat (map (\<lambda>(r, w). [CClose r, CClose w]) pipes))"

definition child_execute :: "system \<Rightarrow> command \<Rightarrow> child_part" where
  "child_execute sys cmd =
     (case index (cmd_args cmd) 0 of
        Inl e \<Rightarrow> Inl [CRaise e]
      | Inr prog \<Rightarrow>
          (case find_executable sys prog of
             None \<Rightarrow> Inl (not_found prog)
           | Some full \<Rightarrow>
               if execve_ok sys full then Inl [CExecve full (cmd_args cmd)]
               else Inl (CExecveFails full (cmd_args cmd) # not_found prog)))"

definition child_run ::
  "system \<Rightarrow> (nat \<times> nat) list \<Rightarrow> nat \<Rightarrow> nat \<Rightarrow> command \<Rightarrow> child_ev list" where
  "child_run sys pipes n i cmd =
     (case and_then (child_stdin sys pipes i cmd)
             (and_then (child_stdout sys pipes n i cmd)
                (and_then (child_close_pipes pipes) (child_execute sys cmd))) of
        Inl evs \<Rightarrow> evs
      | Inr evs \<Rightarrow> evs)"

subsection \<open>The parent\<close>

text \<open>
  \<open>for i in range(n - 1): pipes.append(os.pipe())\<close>.
\<close>

fun make_pipes :: "system \<Rightarrow> nat \<Rightarrow> world \<Rightarrow> (error + (nat \<times> nat) list) \<times> world" where
  "make_pipes sys 0 w = (Inr [], w)"
| "make_pipes sys (Suc k) w =
     (case pipe_result sys (pipes_made w) of
        None \<Rightarrow> (Inl OSError, w\<lparr>pipes_made := Suc (pipes_made w)\<rparr>)
      | Some (r, wr) \<Rightarrow>
          (case make_pipes sys k (emit [EvPipe r wr] (w\<lparr>pipes_made := Suc (pipes_made w)\<rparr>)) of
             (Inl e, w') \<Rightarrow> (Inl e, w')
           | (Inr pipes, w') \<Rightarrow> (Inr ((r, wr) # pipes), w')))"

text \<open>
  \<open>for i, cmd in enumerate(cmds)\<close>: one fork for each stage; the shell keeps the child's
  process id.
\<close>

fun spawn_all ::
  "system \<Rightarrow> (nat \<times> nat) list \<Rightarrow> nat \<Rightarrow> command list \<Rightarrow> nat \<Rightarrow> world
     \<Rightarrow> (error + nat list) \<times> world" where
  "spawn_all sys pipes n [] i w = (Inr [], w)"
| "spawn_all sys pipes n (cmd # rest) i w =
     (case fork_result sys (forks_made w) of
        None \<Rightarrow> (Inl OSError, w\<lparr>forks_made := Suc (forks_made w)\<rparr>)
      | Some pid \<Rightarrow>
          (case spawn_all sys pipes n rest (Suc i)
                  (emit [EvFork pid (child_run sys pipes n i cmd)]
                     (w\<lparr>forks_made := Suc (forks_made w)\<rparr>)) of
             (Inl e, w') \<Rightarrow> (Inl e, w')
           | (Inr pids, w') \<Rightarrow> (Inr (pid # pids), w')))"

definition close_pipes :: "(nat \<times> nat) list \<Rightarrow> world \<Rightarrow> world" where
  "close_pipes pipes w = emit (concat (map (\<lambda>(r, wr). [EvClose r, EvClose wr]) pipes)) w"

text \<open>
  The status recorded for one child: its exit status when it exited, \<open>1\<close> when it did not
  or when \<open>os.waitpid\<close> raised.
\<close>

fun exit_code_of :: "wait_result \<Rightarrow> int" where
  "exit_code_of (Exited s) = s"
| "exit_code_of (Signaled sig) = 1"
| "exit_code_of WaitFailed = 1"

fun wait_all :: "system \<Rightarrow> nat list \<Rightarrow> world \<Rightarrow> int list \<times> world" where
  "wait_all sys [] w = ([], w)"
| "wait_all sys (pid # pids) w =
     (case wait_all sys pids (emit [EvWait pid] w) of
        (exit_codes, w') \<Rightarrow> (exit_code_of (waitpid_result sys pid) # exit_codes, w'))"

definition run_pipeline ::
  "system \<Rightarrow> world \<Rightarrow> command list \<Rightarrow> bool \<Rightarrow> (error + int) \<times> world" where
  "run_pipeline sys w cmds background =
     (let n = length cmds in
      if n = 0 then (Inr 0, w)
      else
        (case make_pipes sys (n - 1) w of
           (Inl e, w1) \<Rightarrow> (Inl e, w1)
         | (Inr pipes, w1) \<Rightarrow>
             (case spawn_all sys pipes n cmds 0 w1 of
                (Inl e, w2) \<Rightarrow> (Inl e, w2)
              | (Inr pids, w2) \<Rightarrow>
                  (let w3 = close_pipes pipes w2 in
                   if background then (Inr 0, w3)
                   else
                     (case wait_all sys pids w3 of
                        (exit_codes, w4) \<Rightarrow>
                          (Inr (if exit_codes \<noteq> [] then last exit_codes else 0), w4))))))"

section \<open>The driver: \<open>main\<close>\<close>

datatype outcome = Continue | Exit int

definition strip :: "string \<Rightarrow> string" where
  "strip s = rev (dropWhile is_space (rev (dropWhile is_space s)))"

text \<open>
  The \<open>cd\<close> builtin: \<open>args[1]\<close> or \<open>HOME\<close> or \<open>/\<close>; a failure is printed and the loop
  goes on.
\<close>

definition cd_builtin :: "system \<Rightarrow> world \<Rightarrow> string list \<Rightarrow> (error + outcome) \<times> world" where
  "cd_builtin sys w as =
     (case (if length as > 1 then index as 1
            else Inr (case env_HOME sys of None \<Rightarrow> ''/'' | Some h \<Rightarrow> h)) of
        Inl e \<Rightarrow> (Inl e, w)
      | Inr target \<Rightarrow>
          (case chdir_error sys target of
             None \<Rightarrow> (Inr Continue, emit [EvChdir target] w)
           | Some msg \<Rightarrow> (Inr Continue, emit [EvStderr (msg @ [newline])] w)))"

text \<open>
  The end of the loop body, from the test for the builtins on: \<open>None\<close> from the first
  part means that no builtin took the line.
\<close>

definition try_builtin ::
  "system \<Rightarrow> world \<Rightarrow> command list \<Rightarrow> ((error + outcome) \<times> world) option" where
  "try_builtin sys w cmds =
     (if length cmds = 1 then
        (case index cmds 0 of
           Inl e \<Rightarrow> Some (Inl e, w)
         | Inr c \<Rightarrow>
             (case index (cmd_args c) 0 of
                Inl e \<Rightarrow> Some (Inl e, w)
              | Inr a0 \<Rightarrow>
                  if a0 = ''exit'' then Some (Inr (Exit 0), w)
                  else if a0 = ''cd'' then Some (cd_builtin sys w (cmd_args c))
                  else None))
      else None)"

definition dispatch ::
  "system \<Rightarrow> world \<Rightarrow> command list \<Rightarrow> bool \<Rightarrow> (error + outcome) \<times> world" where
  "dispatch sys w cmds background =
     (case try_builtin sys w cmds of
        Some r \<Rightarrow> r
      | None \<Rightarrow>
          (case run_pipeline sys w cmds background of
             (Inl e, w') \<Rightarrow> (Inl e, w')
           | (Inr status, w') \<Rightarrow>
               (Inr Continue, if status \<noteq> 0 then emit [EvTerminated status] w' else w')))"

text \<open>
  The loop body for one line read, after the test for the end of the input.
\<close>

definition main_step :: "system \<Rightarrow> world \<Rightarrow> string \<Rightarrow> (error + outcome) \<times> world" where
  "main_step sys w raw =
     (let line = strip raw in
      if line = [] then (Inr Continue, w)
      else
        (let background = (last line = CHR ''&'');
             line = (if background then strip (butlast line) else line)
         in case parse_pipeline line of
              Inl e \<Rightarrow> (Inl e, w)
            | Inr cmds \<Rightarrow>
                if cmds = [] then (Inr Continue, w)
                else dispatch sys w cmds background))"

text \<open>
  The loop of \<open>main\<close> over the lines that \<open>readline\<close> returns; the empty string and the
  end of the list are the end of the input. The result is the exit status of the shell.
  An interrupt from the keyboard is not modelled.
\<close>

fun main_loop ::
  "system \<Rightarrow> bool \<Rightarrow> string \<Rightarrow> string list \<Rightarrow> world \<Rightarrow> (error + int) \<times> world" where
  "main_loop sys interactive prompt [] w =
     (Inr 0, if interactive \<and> prompt \<noteq> [] then emit [EvStdout prompt] w else w)"
| "main_loop sys interactive prompt (line # rest) w =
     (let w1 = (if interactive \<and> prompt \<noteq> [] then emit [EvStdout prompt] w else w) in
      if line = [] then (Inr 0, w1)
      else
        (case main_step sys w1 line of
           (Inl e, w2) \<Rightarrow> (Inl e, w2)
         | (Inr (Exit s), w2) \<Rightarrow> (Inr s, w2)
         | (Inr Continue, w2) \<Rightarrow> main_loop sys interactive prompt rest w2))"

definition main :: "system \<Rightarrow> bool \<Rightarrow> string list \<Rightarrow> world \<Rightarrow> (error + int) \<times> world" where
  "main sys interactive lines w = main_loop sys interactive (get_prompt sys) lines w"

section \<open>A concrete system\<close>

text \<open>
  A system for the concrete instances below: \<open>PATH\<close>, \<open>HOME\<close> and \<open>PS1\<close> are unset, the
  only executable file is \<open>prog\<close> in the current directory, the children get the
  process ids 100, 101, ..., of which the first is killed by signal 9, the wait for
  the second fails, and the others exit with status 3.
\<close>

definition demo_system :: system where
  "demo_system =
     \<lparr>env_PS1 = None, env_PATH = None, env_HOME = None,
      access_x = (\<lambda>p. p = ''prog''), isfile = (\<lambda>p. p = ''prog''),
      pipe_result = (\<lambda>k. Some (3 + 2 * k, 4 + 2 * k)),
      fork_result = (\<lambda>k. Some (100 + k)),
      waitpid_result = (\<lambda>pid. if pid = 100 then Signaled 9
                               else if pid = 101 then WaitFailed else Exited 3),
      chdir_error = (\<lambda>p. if p = ''/tmp'' then None else Some ''No such file or directory''),
      open_result = (\<lambda>p m. Some 9),
      execve_ok = (\<lambda>p. True)\<rparr>"

definition fresh_world :: world where
  "fresh_world = \<lparr>pipes_made = 0, forks_made = 0, trace = []\<rparr>"

definition prog_cmd :: command where
  "prog_cmd = \<lparr>cmd_args = [''prog''], cmd_in = None, cmd_out = None, cmd_append = False\<rparr>"


section \<open>Properties\<close>

lemmas lex_eval = tokenize_def tokenize_from.simps match_alts_def is_bare_def is_space_def

lemmas parse_eval = parse_pipeline_def scan_loop.simps index_def seg_init_def

subsection \<open>The lexer\<close>

lemma match_alts_Nil: "match_alts [] = None"
  by (simp add: match_alts_def)

lemma match_alts_space: "is_space c \<Longrightarrow> match_alts (c # cs) = None"
  by (auto simp: match_alts_def is_bare_def is_space_def)

lemma match_token_spaces: "\<forall>c\<in>set s. is_space c \<Longrightarrow> match_token s = None"
  by (induction s) (simp_all add: match_alts_Nil match_alts_space)

text \<open>
  Claim C7: on an input made of whitespace characters only, the empty input included,
  \<open>tokenize\<close> returns no token.
\<close>

theorem tokenize_whitespace: "\<forall>c\<in>set s. is_space c \<Longrightarrow> tokenize s = []"
  by (simp add: tokenize_def tokenize_from.simps match_token_spaces)

theorem tokenize_whitespace_witness:
  "tokenize [CHR 0x20, CHR 0x09, newline, CHR 0x20] = [] \<and> tokenize [] = []"
  using tokenize_whitespace [of "[CHR 0x20, CHR 0x09, newline, CHR 0x20]"]
        tokenize_whitespace [of "[]"]
  by (simp add: is_space_def)











text \<open>
  Claim C9: quotes do not protect an operator. A quoted \<open>|\<close>, \<open><\<close>, \<open>>\<close> or \<open>>>\<close> is
  the same token as the bare one, so the line \<open>a "|" b\<close> parses as \<open>a | b\<close> does, into
  two commands of one word, and a quoted \<open>>\<close> redirects the output.
\<close>

theorem quoted_operators_are_operators:
  "tokenize ([dquote] @ ''|'' @ [dquote]) = [''|'']
   \<and> tokenize ([dquote] @ ''<'' @ [dquote]) = [''<'']
   \<and> tokenize ([dquote] @ ''>'' @ [dquote]) = [''>'']
   \<and> tokenize ([dquote] @ ''>>'' @ [dquote]) = [''>>'']
   \<and> tokenize ([squote] @ ''|'' @ [squote]) = [''|'']
   \<and> tokenize ([squote] @ ''<'' @ [squote]) = [''<'']
   \<and> tokenize ([squote] @ ''>'' @ [squote]) = [''>'']
   \<and> tokenize ([squote] @ ''>>'' @ [squote]) = [''>>'']
   \<and> parse_pipeline (''a '' @ [dquote] @ ''|'' @ [dquote] @ '' b'') = parse_pipeline ''a | b''
   \<and> parse_pipeline ''a | b'' =
       Inr [\<lparr>cmd_args = [''a''], cmd_in = None, cmd_out = None, cmd_append = False\<rparr>,
            \<lparr>cmd_args = [''b''], cmd_in = None, cmd_out = None, cmd_append = False\<rparr>]
   \<and> parse_pipeline (''a '' @ [dquote] @ ''>'' @ [dquote] @ '' f'') =
       Inr [\<lparr>cmd_args = [''a''], cmd_in = None, cmd_out = Some ''f'', cmd_append = False\<rparr>]"
  by (simp add: lex_eval parse_eval)

subsection \<open>The parser\<close>

text \<open>
  Claim C3: the claim wants \<open>>\<close> to clear the append flag. The branch for \<open>>\<close> sets
  the path only, so after \<open>>>\<close> earlier in the segment the flag stays set: the line
  \<open>a >> x > y\<close> gives the path \<open>y\<close>, as the claim says, with the append flag still on.
\<close>

theorem append_flag_survives_truncating_redirect:
  "parse_pipeline ''a >> x > y'' =
     Inr [\<lparr>cmd_args = [''a''], cmd_in = None, cmd_out = Some ''y'', cmd_append = True\<rparr>]"
  by (simp add: lex_eval parse_eval)

lemma drop_one: "i < length seg \<Longrightarrow> drop i seg = seg ! i # drop (i + 1) seg"
  by (simp add: Cons_nth_drop_Suc)

lemma drop_two:
  "i + 1 < length seg \<Longrightarrow> drop i seg = seg ! i # seg ! (i + 1) # drop (i + 2) seg"
  by (simp add: Cons_nth_drop_Suc Suc_lessD)

lemma scan_loop_scan_toks: "scan_loop seg i v = Inr (scan_toks (drop i seg) v)"
proof (induction seg i v rule: scan_loop.induct)
  case (1 seg i v)
  show ?case
  proof (cases "i < length seg")
    case False
    then show ?thesis by (simp add: scan_loop.simps)
  next
    case True
    note i = True
    have ix: "index seg i = Inr (seg ! i)" using i by (simp add: index_def)
    show ?thesis
    proof (cases "i + 1 < length seg")
      case False
      have d: "drop i seg = [seg ! i]" using drop_one[OF i] False by simp
      have d2: "drop (i + 2) seg = []" using False by simp
      have d1: "drop (i + 1) seg = []" using False by simp
      have step: "scan_loop seg i v =
        (if seg ! i = ''>'' then scan_loop seg (i + 2) (v\<lparr>outfile := None\<rparr>)
         else if seg ! i = ''>>'' then scan_loop seg (i + 2) (v\<lparr>outfile := None\<rparr>)
         else if seg ! i = ''<'' then scan_loop seg (i + 2) (v\<lparr>infile := None\<rparr>)
         else scan_loop seg (i + 1) (v\<lparr>args := args v @ [seg ! i]\<rparr>))"
        using i False ix by (subst scan_loop.simps) simp
      show ?thesis
        unfolding step d
        using "1.IH"(2)[OF i ix _ False] "1.IH"(4)[OF i ix _ _ False]
              "1.IH"(6)[OF i ix _ _ _ False] "1.IH"(7)[OF i ix] d1 d2
        by simp
    next
      case True
      have ix1: "index seg (i + 1) = Inr (seg ! (i + 1))" using True by (simp add: index_def)
      have d1: "drop (i + 1) seg = seg ! (i + 1) # drop (i + 2) seg"
        using drop_one[OF True] by (simp add: add.commute)
      have step: "scan_loop seg i v =
        (if seg ! i = ''>'' then scan_loop seg (i + 2) (v\<lparr>outfile := Some (seg ! (i + 1))\<rparr>)
         else if seg ! i = ''>>''
              then scan_loop seg (i + 2) (v\<lparr>outfile := Some (seg ! (i + 1)), outfile_append := True\<rparr>)
         else if seg ! i = ''<'' then scan_loop seg (i + 2) (v\<lparr>infile := Some (seg ! (i + 1))\<rparr>)
         else scan_loop seg (i + 1) (v\<lparr>args := args v @ [seg ! i]\<rparr>))"
        using i True ix ix1 by (subst scan_loop.simps) simp
      show ?thesis
        unfolding step drop_two[OF True]
        using "1.IH"(1)[OF i ix _ True ix1] "1.IH"(3)[OF i ix _ _ True ix1]
              "1.IH"(5)[OF i ix _ _ _ True ix1] "1.IH"(7)[OF i ix] d1
        by simp
    qed
  qed
qed

lemma build_cmds_total:
  "\<exists>cmds. build_cmds segs = Inr cmds \<and> (\<forall>c\<in>set cmds. cmd_args c \<noteq> [])"
proof (induction segs)
  case Nil
  show ?case by simp
next
  case (Cons seg segs)
  then obtain cmds where c: "build_cmds segs = Inr cmds" "\<forall>c\<in>set cmds. cmd_args c \<noteq> []"
    by blast
  then show ?case by (simp add: scan_loop_scan_toks)
qed

text \<open>
  Claim C4: for every line \<open>parse_pipeline\<close> returns a list of records, never an error,
  and every record in it has a non-empty \<open>args\<close>.
\<close>

theorem parse_pipeline_total_nonempty_args:
  "\<exists>cmds. parse_pipeline line = Inr cmds \<and> (\<forall>c\<in>set cmds. cmd_args c \<noteq> [])"
  using build_cmds_total [of "split_pipe (tokenize line) []"]
  by (simp add: parse_pipeline_def Let_def)

theorem parse_pipeline_total_nonempty_args_witness:
  "parse_pipeline ''ls | > x | wc -l < in'' =
     Inr [\<lparr>cmd_args = [''ls''], cmd_in = None, cmd_out = None, cmd_append = False\<rparr>,
          \<lparr>cmd_args = [''wc'', ''-l''], cmd_in = Some ''in'', cmd_out = None,
             cmd_append = False\<rparr>]
   \<and> [''ls''] \<noteq> [] \<and> [''wc'', ''-l''] \<noteq> []"
  using parse_pipeline_total_nonempty_args [of "''ls | > x | wc -l < in''"]
  by (simp add: lex_eval parse_eval)

lemma scan_toks_append:
  "xs = [] \<or> \<not> is_redir (last xs) \<Longrightarrow> scan_toks (xs @ ys) v = scan_toks ys (scan_toks xs v)"
proof (induction xs v rule: scan_toks.induct)
  case (1 v)
  show ?case by simp
next
  case (2 tok v)
  then show ?case by (cases ys) (simp_all add: is_redir_def)
next
  case (3 tok t rest v)
  have r: "rest = [] \<or> \<not> is_redir (last rest)"
    using "3.prems" by (cases rest) auto
  have tr: "t # rest = [] \<or> \<not> is_redir (last (t # rest))" using "3.prems" by simp
  show ?case
    using "3.IH"(1)[OF _ r] "3.IH"(2)[OF _ _ r] "3.IH"(3)[OF _ _ _ r] "3.IH"(4)[OF _ _ _ tr]
    by simp
qed

lemma scan_toks_odd_ops:
  "\<forall>t\<in>set ops. is_redir t \<Longrightarrow> odd (length ops)
     \<Longrightarrow> redir_var (last ops) (scan_toks ops v) = None"
proof (induction ops v rule: scan_toks.induct)
  case (1 v)
  then show ?case by simp
next
  case (2 tok v)
  then show ?case by (auto simp: is_redir_def redir_var_def)
next
  case (3 tok t rest v)
  have o: "odd (length rest)" using "3.prems"(2) by simp
  then have ne: "rest \<noteq> []" by auto
  have a: "\<forall>t\<in>set rest. is_redir t" using "3.prems"(1) by simp
  have tk: "is_redir tok" using "3.prems"(1) by simp
  show ?case
    using "3.IH"(1)[OF _ a o] "3.IH"(2)[OF _ _ a o] "3.IH"(3)[OF _ _ _ a o] tk ne
    by (auto simp: is_redir_def)
qed

text \<open>
  Claim C5, amended: a token after an operator is that operator's target, whatever
  it is, so the last token of a segment is read as an operator exactly when the run
  of operator tokens that ends the segment has odd length. For every such segment the
  loop ends without error and the variable of the last operator is \<open>None\<close> in the
  record made, if one is made.
\<close>

theorem dangling_redirection_unset:
  assumes "xs = [] \<or> \<not> is_redir (last xs)"
    and "\<forall>t\<in>set ops. is_redir t"
    and "odd (length ops)"
  shows "\<exists>cmds. build_cmds [xs @ ops] = Inr cmds
           \<and> (\<forall>c\<in>set cmds. redir_field (last ops) c = None)"
proof -
  have "redir_var (last ops) (scan_toks (xs @ ops) seg_init) = None"
    using scan_toks_append[OF assms(1)] scan_toks_odd_ops[OF assms(2,3)] by simp
  then show ?thesis
    by (auto simp: scan_loop_scan_toks redir_var_def redir_field_def split: if_splits)
qed

theorem dangling_redirection_unset_witness:
  "build_cmds [[''a'', ''>>'', ''f''] @ [''>'']] =
     Inr [\<lparr>cmd_args = [''a''], cmd_in = None, cmd_out = None, cmd_append = True\<rparr>]
   \<and> redir_field (last [''>''])
        \<lparr>cmd_args = [''a''], cmd_in = None, cmd_out = None, cmd_append = True\<rparr> = None
   \<and> build_cmds [[''a'', ''-x''] @ [''<'', ''>'', ''<'']] =
     Inr [\<lparr>cmd_args = [''a'', ''-x''], cmd_in = None, cmd_out = None, cmd_append = False\<rparr>]"
  using dangling_redirection_unset [of "[''a'', ''>>'', ''f'']" "[''>'']"]
        dangling_redirection_unset [of "[''a'', ''-x'']" "[''<'', ''>'', ''<'']"]
  by (simp add: is_redir_def redir_field_def parse_eval)

text \<open>
  Claim C5 as stated fails: in \<open>a > >\<close> the last token is the operator \<open>>\<close>, and it is
  taken as the target of the one before it, so the output path is set.
\<close>

theorem last_operator_taken_as_target:
  "tokenize ''a > >'' = [''a'', ''>'', ''>'']
   \<and> parse_pipeline ''a > >'' =
       Inr [\<lparr>cmd_args = [''a''], cmd_in = None, cmd_out = Some ''>'', cmd_append = False\<rparr>]"
  by (simp add: lex_eval parse_eval)

subsection \<open>The executor\<close>

text \<open>
  Claim C8: on the empty pipeline \<open>run_pipeline\<close> returns 0, in the background and in
  the foreground, whatever the system would answer; the world is unchanged, so no pipe
  is made and no process is forked.
\<close>

theorem run_pipeline_empty:
  "run_pipeline sys w [] True = (Inr 0, w) \<and> run_pipeline sys w [] False = (Inr 0, w)"
  by (simp add: run_pipeline_def)








lemma make_pipes_ok:
  "\<forall>k<n. pipe_result sys (pipes_made w + k) \<noteq> None
     \<Longrightarrow> \<exists>pipes w'. make_pipes sys n w = (Inr pipes, w') \<and> forks_made w' = forks_made w"
proof (induction n arbitrary: w)
  case 0
  show ?case by simp
next
  case (Suc n)
  from Suc.prems have "pipe_result sys (pipes_made w + 0) \<noteq> None" by blast
  then obtain r wr where p: "pipe_result sys (pipes_made w) = Some (r, wr)" by auto
  let ?w = "emit [EvPipe r wr] (w\<lparr>pipes_made := Suc (pipes_made w)\<rparr>)"
  have "\<forall>k<n. pipe_result sys (pipes_made ?w + k) \<noteq> None"
  proof (intro allI impI)
    fix k assume "k < n"
    then have "Suc k < Suc n" by simp
    with Suc.prems have "pipe_result sys (pipes_made w + Suc k) \<noteq> None" by blast
    then show "pipe_result sys (pipes_made ?w + k) \<noteq> None" by (simp add: emit_def)
  qed
  from Suc.IH[OF this] obtain pipes w' where
    m: "make_pipes sys n ?w = (Inr pipes, w')" "forks_made w' = forks_made ?w" by blast
  with p show ?case by (simp add: emit_def)
qed

lemma spawn_all_ok:
  "\<forall>k<length cmds. fork_result sys (forks_made w + k) = Some (pid (j + k))
     \<Longrightarrow> \<exists>w'. spawn_all sys pipes n cmds i w = (Inr (map pid [j..<j + length cmds]), w')"
proof (induction cmds arbitrary: w i j)
  case Nil
  show ?case by simp
next
  case (Cons cmd rest)
  from Cons.prems have "fork_result sys (forks_made w + 0) = Some (pid (j + 0))" by fastforce
  then have f: "fork_result sys (forks_made w) = Some (pid j)" by simp
  let ?w = "emit [EvFork (pid j) (child_run sys pipes n i cmd)]
              (w\<lparr>forks_made := Suc (forks_made w)\<rparr>)"
  have "\<forall>k<length rest. fork_result sys (forks_made ?w + k) = Some (pid (Suc j + k))"
  proof (intro allI impI)
    fix k assume "k < length rest"
    then have "Suc k < length (cmd # rest)" by simp
    with Cons.prems have "fork_result sys (forks_made w + Suc k) = Some (pid (j + Suc k))"
      by blast
    then show "fork_result sys (forks_made ?w + k) = Some (pid (Suc j + k))"
      by (simp add: emit_def)
  qed
  from Cons.IH[OF this] obtain w' where
    s: "spawn_all sys pipes n rest (Suc i) ?w = (Inr (map pid [Suc j..<Suc j + length rest]), w')"
    by blast
  have "[j..<j + length (cmd # rest)] = j # [Suc j..<Suc j + length rest]"
    using upt_conv_Cons[of j "j + Suc (length rest)"] by simp
  with f s show ?case by simp
qed

lemma wait_all_codes:
  "\<exists>w'. wait_all sys pids w = (map (\<lambda>p. exit_code_of (waitpid_result sys p)) pids, w')"
proof (induction pids arbitrary: w)
  case Nil
  show ?case by simp
next
  case (Cons pid pids)
  from Cons.IH[of "emit [EvWait pid] w"] obtain w' where
    "wait_all sys pids (emit [EvWait pid] w) =
       (map (\<lambda>p. exit_code_of (waitpid_result sys p)) pids, w')"
    by blast
  then show ?case by simp
qed

text \<open>
  Claim C1, amended: for a non-empty pipeline in the foreground, when every call of
  \<open>os.pipe\<close> and \<open>os.fork\<close> succeeds, \<open>run_pipeline\<close> returns the exit status of the last
  stage when that stage exited, and 1 when it was ended by a signal or the wait for it
  failed.
\<close>

theorem foreground_status_of_last_stage:
  assumes "cmds \<noteq> []"
    and "\<forall>k<length cmds - 1. pipe_result sys (pipes_made w + k) \<noteq> None"
    and "\<forall>k<length cmds. fork_result sys (forks_made w + k) = Some (pid k)"
  shows "fst (run_pipeline sys w cmds False) =
           Inr (case waitpid_result sys (pid (length cmds - 1)) of
                  Exited s \<Rightarrow> s
                | Signaled sg \<Rightarrow> 1
                | WaitFailed \<Rightarrow> 1)"
proof -
  from make_pipes_ok[OF assms(2)] obtain pipes w1 where
    mp: "make_pipes sys (length cmds - 1) w = (Inr pipes, w1)" "forks_made w1 = forks_made w"
    by blast
  have "\<forall>k<length cmds. fork_result sys (forks_made w1 + k) = Some (pid (0 + k))"
    using assms(3) mp(2) by simp
  from spawn_all_ok[OF this] obtain w2 where
    sp: "spawn_all sys pipes (length cmds) cmds 0 w1 = (Inr (map pid [0..<0 + length cmds]), w2)"
    by blast
  let ?codes = "map (\<lambda>p. exit_code_of (waitpid_result sys p)) (map pid [0..<length cmds])"
  have ne: "?codes \<noteq> []" using assms(1) by simp
  have up: "[0..<length cmds] = [0..<length cmds - 1] @ [length cmds - 1]"
    using assms(1) by (metis One_nat_def Suc_pred length_greater_0_conv upt_Suc_append zero_le)
  have lst: "last ?codes = exit_code_of (waitpid_result sys (pid (length cmds - 1)))"
    by (subst up) simp
  have ec: "exit_code_of r = (case r of Exited s \<Rightarrow> s | Signaled sg \<Rightarrow> 1 | WaitFailed \<Rightarrow> 1)" for r
    by (cases r) simp_all
  from wait_all_codes[of sys "map pid [0..<length cmds]" "close_pipes pipes w2"]
  obtain w4 where
    wa: "wait_all sys (map pid [0..<length cmds]) (close_pipes pipes w2) = (?codes, w4)"
    by blast
  have "fst (run_pipeline sys w cmds False) = Inr (last ?codes)"
    using assms(1) mp(1) sp ne wa
    by (simp add: run_pipeline_def Let_def)
  with lst ec show ?thesis by simp
qed

theorem foreground_status_of_last_stage_witness:
  "fst (run_pipeline demo_system fresh_world [prog_cmd] False) = Inr 1
   \<and> fst (run_pipeline demo_system fresh_world [prog_cmd, prog_cmd] False) = Inr 1
   \<and> fst (run_pipeline demo_system fresh_world [prog_cmd, prog_cmd, prog_cmd] False) = Inr 3"
  using foreground_status_of_last_stage
          [of "[prog_cmd]" demo_system fresh_world "\<lambda>k. 100 + k"]
        foreground_status_of_last_stage
          [of "[prog_cmd, prog_cmd]" demo_system fresh_world "\<lambda>k. 100 + k"]
        foreground_status_of_last_stage
          [of "[prog_cmd, prog_cmd, prog_cmd]" demo_system fresh_world "\<lambda>k. 100 + k"]
  by (simp add: demo_system_def fresh_world_def)

text \<open>
  Claim C1 as stated fails: a last stage killed by a signal, or whose wait fails,
  gives the status 1, not 0; and when \<open>os.fork\<close> raises, \<open>run_pipeline\<close> raises too.
\<close>

theorem signalled_last_stage_gives_one:
  "waitpid_result demo_system 100 = Signaled 9
   \<and> waitpid_result demo_system 101 = WaitFailed
   \<and> run_pipeline demo_system fresh_world [prog_cmd] False =
       (Inr 1, \<lparr>pipes_made = 0, forks_made = 1,
                trace = [EvFork 100 [CExecve ''prog'' [''prog'']], EvWait 100]\<rparr>)
   \<and> fst (run_pipeline demo_system fresh_world [prog_cmd, prog_cmd] False) = Inr 1
   \<and> fst (run_pipeline (demo_system\<lparr>fork_result := \<lambda>k. None\<rparr>) fresh_world [prog_cmd] False)
       = Inl OSError"
  by (simp add: run_pipeline_def close_pipes_def emit_def child_run_def child_stdin_def
        child_stdout_def child_close_pipes_def child_execute_def and_then_def index_def
        find_executable_def path_join_def is_executable_def
        demo_system_def fresh_world_def prog_cmd_def)

subsection \<open>The driver\<close>

lemma cd_builtin_cases:
  "\<exists>t. cd_builtin sys w (a # rest) = (Inr Continue, emit [EvChdir t] w)
     \<or> cd_builtin sys w (a # rest) = (Inr Continue, emit [EvStderr t] w)"
proof (cases rest)
  case Nil
  then show ?thesis
    by (cases "chdir_error sys (case env_HOME sys of None \<Rightarrow> ''/'' | Some h \<Rightarrow> h)")
       (auto simp: cd_builtin_def)
next
  case (Cons t ts)
  then show ?thesis
    by (cases "chdir_error sys t") (auto simp: cd_builtin_def index_def)
qed

lemma try_builtin_single:
  "cmd_args c = a # rest \<Longrightarrow>
     try_builtin sys w [c] =
       (if a = ''exit'' then Some (Inr (Exit 0), w)
        else if a = ''cd'' then Some (cd_builtin sys w (a # rest))
        else None)"
  by (simp add: try_builtin_def index_def)

text \<open>
  Claim C10: for a pipeline of one stage whose first argument is \<open>exit\<close> or \<open>cd\<close> the
  builtin runs: \<open>exit\<close> ends the shell with status 0 and leaves the world as it is,
  \<open>cd\<close> adds one event, the change of directory or the error text, and goes on. The
  result is the same for the other value of the background flag and for any values
  of the three redirection fields, and no process is forked, so no file is opened.
\<close>

theorem builtin_dispatch:
  assumes "cmd_args c = a # rest"
  shows "(a = ''exit'' \<longrightarrow> dispatch sys w [c] background = (Inr (Exit 0), w))
       \<and> (a = ''cd'' \<longrightarrow>
            dispatch sys w [c] background = cd_builtin sys w (a # rest)
            \<and> (\<exists>t. dispatch sys w [c] background = (Inr Continue, emit [EvChdir t] w)
                  \<or> dispatch sys w [c] background = (Inr Continue, emit [EvStderr t] w)))
       \<and> (a = ''exit'' \<or> a = ''cd'' \<longrightarrow>
            dispatch sys w [c\<lparr>cmd_in := i, cmd_out := opath, cmd_append := ap\<rparr>] (\<not> background)
              = dispatch sys w [c] background)"
proof -
  have c': "cmd_args (c\<lparr>cmd_in := i, cmd_out := opath, cmd_append := ap\<rparr>) = a # rest"
    using assms by simp
  have cd: "a = ''cd'' \<Longrightarrow> dispatch sys w [c] background = cd_builtin sys w (a # rest)"
    by (simp add: dispatch_def try_builtin_single[OF assms])
  show ?thesis
    using cd cd_builtin_cases[of sys w a rest]
    by (auto simp: dispatch_def try_builtin_single[OF assms] try_builtin_single[OF c'])
qed

theorem builtin_dispatch_witness:
  "main_step demo_system fresh_world ''exit > f &'' = (Inr (Exit 0), fresh_world)
   \<and> main_step demo_system fresh_world ''exit > f'' = (Inr (Exit 0), fresh_world)
   \<and> main_step demo_system fresh_world ''cd /tmp >> f &'' =
       (Inr Continue, emit [EvChdir ''/tmp''] fresh_world)
   \<and> main demo_system False [''exit < g &'', ''prog''] fresh_world = (Inr 0, fresh_world)"
proof -
  let ?e = "\<lparr>cmd_args = [''exit''], cmd_in = None, cmd_out = Some ''f'', cmd_append = False\<rparr>"
  let ?g = "\<lparr>cmd_args = [''exit''], cmd_in = Some ''g'', cmd_out = None, cmd_append = False\<rparr>"
  let ?c = "\<lparr>cmd_args = [''cd'', ''/tmp''], cmd_in = None, cmd_out = Some ''f'',
             cmd_append = True\<rparr>"
  have pe: "parse_pipeline ''exit > f'' = Inr [?e]" by (simp add: lex_eval parse_eval)
  have pg: "parse_pipeline ''exit < g'' = Inr [?g]" by (simp add: lex_eval parse_eval)
  have pc: "parse_pipeline ''cd /tmp >> f'' = Inr [?c]" by (simp add: lex_eval parse_eval)
  have m1: "main_step demo_system fresh_world ''exit > f &''
              = dispatch demo_system fresh_world [?e] True"
    by (simp add: main_step_def strip_def is_space_def pe)
  have m2: "main_step demo_system fresh_world ''exit > f''
              = dispatch demo_system fresh_world [?e] False"
    by (simp add: main_step_def strip_def is_space_def pe)
  have m3: "main_step demo_system fresh_world ''cd /tmp >> f &''
              = dispatch demo_system fresh_world [?c] True"
    by (simp add: main_step_def strip_def is_space_def pc)
  have m4: "main_step demo_system fresh_world ''exit < g &''
              = dispatch demo_system fresh_world [?g] True"
    by (simp add: main_step_def strip_def is_space_def pg)
  have d1: "dispatch demo_system fresh_world [?e] True = (Inr (Exit 0), fresh_world)"
    using builtin_dispatch[of ?e "''exit''" "[]" demo_system fresh_world True] by simp
  have d2: "dispatch demo_system fresh_world [?e] False = (Inr (Exit 0), fresh_world)"
    using builtin_dispatch[of ?e "''exit''" "[]" demo_system fresh_world False] by simp
  have d3: "dispatch demo_system fresh_world [?c] True
              = (Inr Continue, emit [EvChdir ''/tmp''] fresh_world)"
    using builtin_dispatch[of ?c "''cd''" "[''/tmp'']" demo_system fresh_world True]
    by (simp add: cd_builtin_def index_def demo_system_def)
  have d4: "dispatch demo_system fresh_world [?g] True = (Inr (Exit 0), fresh_world)"
    using builtin_dispatch[of ?g "''exit''" "[]" demo_system fresh_world True] by simp
  have m: "main demo_system False [''exit < g &'', ''prog''] fresh_world = (Inr 0, fresh_world)"
    by (simp add: main_def m4 d4)
  from m1 m2 m3 d1 d2 d3 m show ?thesis by simp
qed

end
